theory Spec2Isabelle
  imports Complex_Main "HOL-Library.Sublist"
begin

section \<open>Hebrew text normalisation and matching (hebrew\_normalizer.py)\<close>

text \<open>
  A Python \<open>str\<close> is a sequence of Unicode code points; a code point is modelled by its
  number (\<open>ord\<close>). The arguments annotated \<open>str\<close> are also tested with \<open>not text\<close>,
  which accepts Python's \<open>None\<close>, so an argument is an optional string: \<open>None\<close> is Python's
  \<open>None\<close> and \<open>Some s\<close> a string.
\<close>

type_synonym codepoint = nat
type_synonym ustring = "codepoint list"
type_synonym text_arg = "ustring option"

text \<open>Python's truth test on an optional string: \<open>not text\<close>.\<close>

definition py_not :: "text_arg \<Rightarrow> bool" where
  "py_not text = (case text of None \<Rightarrow> True | Some s \<Rightarrow> s = [])"

subsection \<open>Constants of the module\<close>

text \<open>\<open>range(a, b)\<close> is the list \<open>[a..<b]\<close>; membership is list membership.\<close>

definition HEBREW_POINTS_EXTENDED :: "codepoint list list" where
  "HEBREW_POINTS_EXTENDED =
     [[0x05B0..<0x05BD], [0x05BF..<0x05C3], [0x05C4..<0x05C6], [0x05C7]]"

text \<open>The dictionary \<open>FINAL_FORMS\<close>, in insertion order (the order \<open>items()\<close> yields).\<close>

definition FINAL_FORMS :: "(codepoint \<times> codepoint) list" where
  "FINAL_FORMS =
     [(0x05DA, 0x05DB), (0x05DD, 0x05DE), (0x05DF, 0x05E0), (0x05E3, 0x05E4), (0x05E5, 0x05E6)]"

subsection \<open>normalize\_hebrew\<close>

text \<open>
  \<open>unicodedata.category(char) == 'Mn'\<close> reads the Unicode character database of the Python
  runtime, which is not part of the repository: the test is the parameter \<open>mn\<close> of the model.
  The body of the first loop, with the accumulator \<open>normalized\<close>:
\<close>

definition strip_step :: "(codepoint \<Rightarrow> bool) \<Rightarrow> codepoint \<Rightarrow> ustring \<Rightarrow> ustring" where
  "strip_step mn char normalized =
     (if mn char then normalized
      else if list_ex (\<lambda>point_range. char \<in> set point_range) HEBREW_POINTS_EXTENDED
           then normalized
      else if char = 0x05C7 then normalized
      else normalized @ [char])"

text \<open>\<open>str.replace(old, new)\<close> for one-character \<open>old\<close> and \<open>new\<close>.\<close>

definition replace_char :: "codepoint \<times> codepoint \<Rightarrow> ustring \<Rightarrow> ustring" where
  "replace_char fr normalized = map (\<lambda>c. if c = fst fr then snd fr else c) normalized"

definition is_consonant :: "codepoint \<Rightarrow> bool" where
  "is_consonant c = (0x05D0 \<le> c \<and> c \<le> 0x05EA)"

definition normalize_hebrew :: "(codepoint \<Rightarrow> bool) \<Rightarrow> text_arg \<Rightarrow> ustring" where
  "normalize_hebrew mn text =
     (if py_not text then []
      else
        let normalized = fold (strip_step mn) (the text) [];
            normalized = fold replace_char FINAL_FORMS normalized;
            result = filter is_consonant normalized
        in result)"

text \<open>\<open>is_hebrew_text\<close>: at least one code point in the consonant range.\<close>

definition is_hebrew_text :: "text_arg \<Rightarrow> bool" where
  "is_hebrew_text text =
     (if py_not text then False else list_ex is_consonant (the text))"

text \<open>
  The nonspacing marks of the Hebrew block (U+0590 to U+05FF) in the Unicode character
  database: the accents and points U+0591 to U+05BD, rafe U+05BF, the shin and sin dots
  U+05C1 and U+05C2, the upper and lower dots U+05C4 and U+05C5, and qamats qatan U+05C7.
  It instantiates \<open>mn\<close> at concrete inputs; the letters U+05D0 to U+05EA have category Lo.
\<close>

definition hebrew_block_mn :: "codepoint \<Rightarrow> bool" where
  "hebrew_block_mn c =
     ((0x0591 \<le> c \<and> c \<le> 0x05BD) \<or> c = 0x05BF \<or> c = 0x05C1 \<or> c = 0x05C2
      \<or> c = 0x05C4 \<or> c = 0x05C5 \<or> c = 0x05C7)"

text \<open>The five final-form letters and the substitution table as a function (spec, section 4.1, step 4).\<close>

definition is_final_form :: "codepoint \<Rightarrow> bool" where
  "is_final_form c = (c = 0x05DA \<or> c = 0x05DD \<or> c = 0x05DF \<or> c = 0x05E3 \<or> c = 0x05E5)"

definition base_letter :: "codepoint \<Rightarrow> codepoint" where
  "base_letter c = (if is_final_form c then c + 1 else c)"

text \<open>The code points of \<open>HEBREW_POINTS_EXTENDED\<close>, as a predicate.\<close>

definition is_point :: "codepoint \<Rightarrow> bool" where
  "is_point c = ((0x05B0 \<le> c \<and> c \<le> 0x05BC) \<or> (0x05BF \<le> c \<and> c \<le> 0x05C2)
                 \<or> c = 0x05C4 \<or> c = 0x05C5 \<or> c = 0x05C7)"

subsection \<open>remove\_matres\_lectionis\<close>

text \<open>
  \<open>re.sub(p, r, s)\<close> for a pattern \<open>p\<close> that is one literal letter \<open>c\<close> twice and a replacement
  \<open>r\<close> that is \<open>c\<close> once: the matches are the leftmost non-overlapping occurrences of the pair,
  found scanning left to right.
\<close>

fun re_sub_pair :: "codepoint \<Rightarrow> ustring \<Rightarrow> ustring" where
  "re_sub_pair c (x # y # rest) =
     (if x = c \<and> y = c then c # re_sub_pair c rest else x # re_sub_pair c (y # rest))"
| "re_sub_pair c rest = rest"

definition remove_matres_lectionis :: "ustring \<Rightarrow> ustring" where
  "remove_matres_lectionis text =
     (let result = text;
          result = re_sub_pair 0x05D5 result;
          result = re_sub_pair 0x05D9 result
      in result)"

subsection \<open>levenshtein\_distance\<close>

text \<open>
  Reading a list at an index raises \<open>IndexError\<close> outside the list; the rows are lists of
  numbers and a failed read makes the result \<open>None\<close>. \<open>xs[-1]\<close> is the last element.
\<close>

definition py_index :: "'a list \<Rightarrow> nat \<Rightarrow> 'a option" where
  "py_index xs i = (if i < length xs then Some (xs ! i) else None)"

definition py_last :: "'a list \<Rightarrow> 'a option" where
  "py_last xs = (if xs = [] then None else Some (last xs))"

text \<open>The body of the inner loop, for \<open>(j, c2)\<close> of \<open>enumerate(s2)\<close>, on \<open>current_row\<close>.\<close>

definition inner_step ::
  "codepoint \<Rightarrow> nat list \<Rightarrow> nat \<times> codepoint \<Rightarrow> nat list option \<Rightarrow> nat list option" where
  "inner_step c1 previous_row jc current_row =
     (case current_row of
        None \<Rightarrow> None
      | Some cur \<Rightarrow>
          (case py_index previous_row (fst jc + 1) of
             None \<Rightarrow> None
           | Some p1 \<Rightarrow>
               (case py_index cur (fst jc) of
                  None \<Rightarrow> None
                | Some cj \<Rightarrow>
                    (case py_index previous_row (fst jc) of
                       None \<Rightarrow> None
                     | Some p0 \<Rightarrow>
                         let insertions = p1 + 1;
                             deletions = cj + 1;
                             substitutions = p0 + (if c1 \<noteq> snd jc then 1 else 0)
                         in Some (cur @ [min insertions (min deletions substitutions)])))))"

text \<open>The body of the outer loop, for \<open>(i, c1)\<close> of \<open>enumerate(s1)\<close>, on \<open>previous_row\<close>.\<close>

definition outer_step :: "ustring \<Rightarrow> nat \<times> codepoint \<Rightarrow> nat list option \<Rightarrow> nat list option" where
  "outer_step s2 ic previous_row =
     (case previous_row of
        None \<Rightarrow> None
      | Some prev \<Rightarrow> fold (inner_step (snd ic) prev) (enumerate 0 s2) (Some [fst ic + 1]))"

function levenshtein_distance :: "ustring \<Rightarrow> ustring \<Rightarrow> nat option" where
  "levenshtein_distance s1 s2 =
     (if length s1 < length s2 then levenshtein_distance s2 s1
      else if length s2 = 0 then Some (length s1)
      else
        (case fold (outer_step s2) (enumerate 0 s1) (Some [0..<length s2 + 1]) of
           None \<Rightarrow> None
         | Some previous_row \<Rightarrow> py_last previous_row))"
  by pat_completeness auto
termination
  by (relation "measure (\<lambda>(s1, s2). if length s1 < length s2 then 1 else 0)") auto

declare levenshtein_distance.simps [simp del]

subsection \<open>compare\_hebrew\<close>

text \<open>
  A score is a Python float; the model computes with real numbers, so \<open>1.0\<close>, \<open>0.9\<close>, \<open>0.85\<close>,
  \<open>0.7\<close> and \<open>0.0\<close> are the exact decimals and the division and product are exact; the
  rounding of the float operations is not modelled. The result is \<open>None\<close> when the call
  raises.
\<close>

definition compare_hebrew ::
  "(codepoint \<Rightarrow> bool) \<Rightarrow> text_arg \<Rightarrow> text_arg \<Rightarrow> bool \<Rightarrow> real \<Rightarrow> real \<Rightarrow> real option" where
  "compare_hebrew mn text1 text2 fuzzy weight_exact weight_consonantal =
     (if py_not text1 \<or> py_not text2 then Some 0.0
      else if text1 = text2 then Some weight_exact
      else
        let norm1 = normalize_hebrew mn text1;
            norm2 = normalize_hebrew mn text2
        in
          if norm1 = norm2 then Some weight_consonantal
          else if \<not> fuzzy then Some 0.0
          else
            let max_len = max (length norm1) (length norm2)
            in
              if max_len = 0 then Some 0.0
              else
                (case levenshtein_distance norm1 norm2 of
                   None \<Rightarrow> None
                 | Some distance \<Rightarrow>
                     let similarity = 1.0 - (real distance / real max_len);
                         fuzzy_weight = 0.7
                     in
                       if similarity < 0.9
                          \<and> remove_matres_lectionis norm1 = remove_matres_lectionis norm2
                          \<and> length (remove_matres_lectionis norm1) > 0
                       then Some 0.85
                       else Some (similarity * fuzzy_weight)))"

text \<open>The call with the default weights \<open>weight_exact = 1.0\<close> and \<open>weight_consonantal = 0.9\<close>.\<close>

definition compare_hebrew_default ::
  "(codepoint \<Rightarrow> bool) \<Rightarrow> text_arg \<Rightarrow> text_arg \<Rightarrow> bool \<Rightarrow> real option" where
  "compare_hebrew_default mn text1 text2 fuzzy = compare_hebrew mn text1 text2 fuzzy 1.0 0.9"

section \<open>The textbook edit distance\<close>

text \<open>
  The textbook Levenshtein distance of two sequences, by its recurrence: the distance to the
  empty sequence is the length; otherwise the least of deleting the first element of the one
  (cost 1), inserting the first element of the other (cost 1), and substituting one first
  element for the other (cost 1, or 0 when they are equal). There is no transposition.
\<close>

fun edit_distance :: "'a list \<Rightarrow> 'a list \<Rightarrow> nat" where
  "edit_distance [] ys = length ys"
| "edit_distance (x # xs) [] = Suc (length xs)"
| "edit_distance (x # xs) (y # ys) =
     min (edit_distance xs (y # ys) + 1)
         (min (edit_distance (x # xs) ys + 1)
              (edit_distance xs ys + (if x \<noteq> y then 1 else 0)))"

text \<open>
  The edits of the textbook distance: insert an element at a position, delete the element at
  a position, substitute the element at a position. An edit outside the sequence does not
  apply. A script is a list of edits, applied in order; its cost is its length.
\<close>

datatype 'a edit = Ins nat 'a | Del nat | Sub nat 'a

fun apply_edit :: "'a edit \<Rightarrow> 'a list \<Rightarrow> 'a list option" where
  "apply_edit (Ins i c) xs = (if i \<le> length xs then Some (take i xs @ c # drop i xs) else None)"
| "apply_edit (Del i) xs = (if i < length xs then Some (take i xs @ drop (Suc i) xs) else None)"
| "apply_edit (Sub i c) xs = (if i < length xs then Some (xs[i := c]) else None)"

fun apply_edits :: "'a edit list \<Rightarrow> 'a list \<Rightarrow> 'a list option" where
  "apply_edits [] xs = Some xs"
| "apply_edits (e # es) xs =
     (case apply_edit e xs of None \<Rightarrow> None | Some ys \<Rightarrow> apply_edits es ys)"

text \<open>The same edit one position further right.\<close>

fun shift :: "'a edit \<Rightarrow> 'a edit" where
  "shift (Ins i c) = Ins (Suc i) c"
| "shift (Del i) = Del (Suc i)"
| "shift (Sub i c) = Sub (Suc i) c"

text \<open>
  The row of the dynamic-programming table that belongs to the reversed prefix \<open>A\<close> of the
  first string: entry \<open>j\<close> is the distance from \<open>A\<close> to the reversed first \<open>j\<close> elements of \<open>s2\<close>.
\<close>

definition row_of :: "ustring \<Rightarrow> ustring \<Rightarrow> nat list" where
  "row_of A s2 = map (\<lambda>j. edit_distance A (rev (take j s2))) [0..<length s2 + 1]"

text \<open>The code points of an optional string; \<open>None\<close> has none.\<close>

definition str_of :: "text_arg \<Rightarrow> ustring" where
  "str_of text = (case text of None \<Rightarrow> [] | Some s \<Rightarrow> s)"

section \<open>Runs of equal letters\<close>

text \<open>
  The maximal runs of a string: each run is a letter with the number of its consecutive
  occurrences; \<open>unruns\<close> writes the runs out again. \<open>maximal_runs\<close> says that the counts are
  positive and that neighbouring runs have different letters.
\<close>

fun runs :: "'a list \<Rightarrow> ('a \<times> nat) list" where
  "runs [] = []"
| "runs (x # xs) =
     (case runs xs of
        [] \<Rightarrow> [(x, 1)]
      | (y, n) # rest \<Rightarrow> if x = y then (y, Suc n) # rest else (x, 1) # (y, n) # rest)"

definition unruns :: "('a \<times> nat) list \<Rightarrow> 'a list" where
  "unruns rs = concat (map (\<lambda>(c, n). replicate n c) rs)"

fun maximal_runs :: "('a \<times> nat) list \<Rightarrow> bool" where
  "maximal_runs [] = True"
| "maximal_runs [(c, n)] = (0 < n)"
| "maximal_runs ((c, n) # (d, m) # rs) = (0 < n \<and> c \<noteq> d \<and> maximal_runs ((d, m) # rs))"

text \<open>
  The collapse in the words of the specification (section 4.2, tier 5): a run of exactly two
  vavs (U+05D5) or two yods (U+05D9) becomes one; every other run stays.
\<close>

definition collapse_exact_pairs :: "ustring \<Rightarrow> ustring" where
  "collapse_exact_pairs text =
     unruns (map (\<lambda>(c, n). if (c = 0x05D5 \<or> c = 0x05D9) \<and> n = 2 then (c, 1) else (c, n))
               (runs text))"

text \<open>
  What the two substitutions do to the runs: a run of \<open>n\<close> vavs or yods becomes a run of
  \<open>(n + 1) div 2\<close>, every non-overlapping pair having become one letter.
\<close>

definition halve_runs :: "ustring \<Rightarrow> ustring" where
  "halve_runs text =
     unruns (map (\<lambda>(c, n). if c = 0x05D5 \<or> c = 0x05D9 then (c, (n + 1) div 2) else (c, n))
               (runs text))"

text \<open>One substitution, for the letter \<open>c\<close>, on one run.\<close>

definition halve :: "codepoint \<Rightarrow> codepoint \<times> nat \<Rightarrow> codepoint \<times> nat" where
  "halve c r = (if fst r = c then (fst r, (snd r + 1) div 2) else r)"

section \<open>The coverage pass (create\_complete\_bhsa\_mapping.py)\<close>

text \<open>
  The dictionaries of the script: \<open>all_bhsa\<close> (vocalised lexeme to its fields) and \<open>all_strongs\<close>
  (Strong's number to its fields) are association lists in insertion order, the order the
  loops visit; \<open>bhsa_to_strongs\<close> is only read by key and written by key, a map. The values
  keep the keys of the source, prefixed (\<open>b_\<close>, \<open>s_\<close>, \<open>m_\<close>) to keep them apart from the
  variables of the same names. The glosses are carried along unread, so their type is a
  parameter.
\<close>

datatype match_method = exact_match | consonantal_match | fuzzy_match

record bhsa_data =
  b_voc :: ustring
  b_cons :: ustring
  b_normalized :: ustring

record 'g strongs_data =
  s_lemma :: ustring
  s_normalized :: ustring
  s_glosses :: 'g

record 'g match_entry =
  m_strongs :: string
  m_strongs_lemma :: ustring
  m_score :: real
  m_method :: match_method
  m_kjv_glosses :: 'g

text \<open>
  \<open>round(score, 3)\<close>, on exact reals: to the nearest multiple of \<open>1/1000\<close>, a tie to the even
  one. Only the stored score passes through it; the comparisons read the score itself.
\<close>

definition py_round :: "real \<Rightarrow> int" where
  "py_round x =
     (let f = \<lfloor>x\<rfloor>; d = x - of_int f
      in if d < 1 / 2 then f else if 1 / 2 < d then f + 1 else if even f then f else f + 1)"

definition py_round3 :: "real \<Rightarrow> real" where
  "py_round3 x = of_int (py_round (x * 1000)) / 1000"

text \<open>
  The body of the loop over \<open>all_strongs.items()\<close> for one lexeme, on the pair
  \<open>(best_match, best_score)\<close>, which starts as \<open>(None, 0)\<close>. \<open>compare_hebrew\<close> is called with
  its default arguments, so \<open>fuzzy\<close> is set.
\<close>

definition best_step ::
  "(codepoint \<Rightarrow> bool) \<Rightarrow> bhsa_data \<Rightarrow> string \<times> 'g strongs_data \<Rightarrow>
   ('g match_entry option \<times> real) option \<Rightarrow> ('g match_entry option \<times> real) option" where
  "best_step mn bhsa_data item st =
     (case st of
        None \<Rightarrow> None
      | Some (best_match, best_score) \<Rightarrow>
          (case compare_hebrew_default mn (Some (b_normalized bhsa_data))
                  (Some (s_normalized (snd item))) True of
             None \<Rightarrow> None
           | Some score \<Rightarrow>
               if score > best_score
               then Some (Some \<lparr>m_strongs = fst item,
                                 m_strongs_lemma = s_lemma (snd item),
                                 m_score = py_round3 score,
                                 m_method = (if score < 0.9 then fuzzy_match else consonantal_match),
                                 m_kjv_glosses = s_glosses (snd item)\<rparr>,
                          score)
               else Some (best_match, best_score)))"

text \<open>
  The body of the loop over \<open>unmatched\<close>, on \<open>bhsa_to_strongs\<close> and \<open>matched_count\<close>; a key
  missing from \<open>all_bhsa\<close> would raise \<open>KeyError\<close>. The progress output is left out.
\<close>

definition cover_step ::
  "(codepoint \<Rightarrow> bool) \<Rightarrow> (ustring \<times> bhsa_data) list \<Rightarrow> (string \<times> 'g strongs_data) list \<Rightarrow>
   ustring \<Rightarrow> ((ustring \<rightharpoonup> 'g match_entry) \<times> nat) option \<Rightarrow>
   ((ustring \<rightharpoonup> 'g match_entry) \<times> nat) option" where
  "cover_step mn all_bhsa all_strongs bhsa_lex st =
     (case st of
        None \<Rightarrow> None
      | Some (bhsa_to_strongs, matched_count) \<Rightarrow>
          (case map_of all_bhsa bhsa_lex of
             None \<Rightarrow> None
           | Some bhsa_data \<Rightarrow>
               (case fold (best_step mn bhsa_data) all_strongs (Some (None, 0)) of
                  None \<Rightarrow> None
                | Some (best_match, best_score) \<Rightarrow>
                    (case best_match of
                       None \<Rightarrow> Some (bhsa_to_strongs, matched_count)
                     | Some m \<Rightarrow> Some (bhsa_to_strongs(bhsa_lex \<mapsto> m), matched_count + 1)))))"

text \<open>Lines 70 to 111: the list \<open>unmatched\<close> and the loop over it.\<close>

definition coverage_pass ::
  "(codepoint \<Rightarrow> bool) \<Rightarrow> (ustring \<times> bhsa_data) list \<Rightarrow> (string \<times> 'g strongs_data) list \<Rightarrow>
   (ustring \<rightharpoonup> 'g match_entry) \<Rightarrow> ((ustring \<rightharpoonup> 'g match_entry) \<times> nat) option" where
  "coverage_pass mn all_bhsa all_strongs bhsa_to_strongs =
     (let unmatched = filter (\<lambda>lex. bhsa_to_strongs lex = None) (map fst all_bhsa)
      in fold (cover_step mn all_bhsa all_strongs) unmatched (Some (bhsa_to_strongs, 0)))"

section \<open>Properties of normalize\_hebrew\<close>

lemma point_ranges_iff:
  "list_ex (\<lambda>point_range. c \<in> set point_range) HEBREW_POINTS_EXTENDED = is_point c"
  unfolding HEBREW_POINTS_EXTENDED_def is_point_def
  by (simp del: upt_rec_numeral) arith

lemma strip_step_eq:
  "strip_step mn c acc = (if \<not> mn c \<and> \<not> is_point c then acc @ [c] else acc)"
  unfolding strip_step_def point_ranges_iff by (auto simp: is_point_def)

lemma fold_strip_step:
  "fold (strip_step mn) s acc = acc @ filter (\<lambda>c. \<not> mn c \<and> \<not> is_point c) s"
  by (induction s arbitrary: acc) (simp_all add: strip_step_eq)

lemma fold_replace_char_final:
  "fold replace_char FINAL_FORMS s = map base_letter s"
  unfolding FINAL_FORMS_def replace_char_def base_letter_def is_final_form_def
  by (induction s) auto

lemma normalize_hebrew_Some:
  "normalize_hebrew mn (Some s) =
     filter is_consonant (map base_letter (filter (\<lambda>c. \<not> mn c \<and> \<not> is_point c) s))"
  unfolding normalize_hebrew_def py_not_def
  by (simp add: fold_strip_step fold_replace_char_final)

lemma normalize_hebrew_None [simp]: "normalize_hebrew mn None = []"
  unfolding normalize_hebrew_def py_not_def by simp

lemma consonant_base_letter: "is_consonant (base_letter c) = is_consonant c"
  unfolding is_consonant_def base_letter_def is_final_form_def by auto

lemma consonant_not_point: "is_consonant c \<Longrightarrow> \<not> is_point c"
  unfolding is_consonant_def is_point_def by auto

lemma not_final_base_letter: "\<not> is_final_form (base_letter c)"
  unfolding base_letter_def is_final_form_def by auto

lemma base_letter_idem: "base_letter (base_letter c) = base_letter c"
  using not_final_base_letter [of c] by (simp add: base_letter_def)

text \<open>The surviving code points are the consonants that are not marks, each mapped to its base letter.\<close>

lemma normalize_hebrew_survivors:
  "normalize_hebrew mn (Some s) =
     map base_letter (filter (\<lambda>c. is_consonant c \<and> \<not> mn c) s)"
proof -
  have "filter is_consonant (map base_letter xs) = map base_letter (filter is_consonant xs)" for xs
    by (induction xs) (simp_all add: consonant_base_letter)
  moreover have "(is_consonant c \<and> \<not> mn c \<and> \<not> is_point c) = (is_consonant c \<and> \<not> mn c)" for c
    using consonant_not_point by blast
  ultimately show ?thesis
    by (simp add: normalize_hebrew_Some conj_commute conj_left_commute)
qed


section \<open>Properties of the textbook edit distance\<close>

lemma edit_distance_Nil2 [simp]: "edit_distance xs [] = length xs"
  by (cases xs) simp_all

lemma edit_distance_sym: "edit_distance xs ys = edit_distance ys xs"
  by (induction xs ys rule: edit_distance.induct) (simp_all add: min.commute min.left_commute eq_commute)

lemma edit_distance_refl [simp]: "edit_distance xs xs = 0"
  by (induction xs) simp_all

lemma edit_distance_le_sum: "edit_distance xs ys \<le> length xs + length ys"
  by (induction xs ys rule: edit_distance.induct) (simp_all add: min_def)

lemma edit_distance_le_max: "edit_distance xs ys \<le> max (length xs) (length ys)"
  by (induction xs ys rule: edit_distance.induct) (auto simp add: min_def max_def)

lemma length_le_edit_distance: "length ys \<le> length xs + edit_distance xs ys"
  by (induction xs ys rule: edit_distance.induct) (auto simp add: min_def)

lemma edit_distance_zero: "edit_distance xs ys = 0 \<Longrightarrow> xs = ys"
  by (induction xs ys rule: edit_distance.induct) (auto simp add: min_def split: if_splits)

lemma edit_distance_triangle:
  "edit_distance a c \<le> edit_distance a b + edit_distance b c"
proof (induction "length a + length b + length c" arbitrary: a b c rule: less_induct)
  case less
  show ?case
  proof (cases a)
    case Nil
    then show ?thesis using length_le_edit_distance [of c b] by simp
  next
    case A: (Cons x a')
    show ?thesis
    proof (cases c)
      case Nil
      then show ?thesis using length_le_edit_distance [of a b] by (simp add: edit_distance_sym [of a b])
    next
      case C: (Cons z c')
      show ?thesis
      proof (cases b)
        case Nil
        then show ?thesis using edit_distance_le_sum [of a c] by simp
      next
        case B: (Cons y b')
        have 1: "edit_distance a' c \<le> edit_distance a' b + edit_distance b c"
          using less [of a' b c] A by simp
        have 2: "edit_distance a c' \<le> edit_distance a b + edit_distance b c'"
          using less [of a b c'] C by simp
        have 3: "edit_distance a c \<le> edit_distance a b' + edit_distance b' c"
          using less [of a b' c] B by simp
        have 4: "edit_distance a c' \<le> edit_distance a b' + edit_distance b' c'"
          using less [of a b' c'] B C by simp
        have 5: "edit_distance a' c \<le> edit_distance a' b' + edit_distance b' c"
          using less [of a' b' c] A B by simp
        have 6: "edit_distance a' c' \<le> edit_distance a' b' + edit_distance b' c'"
          using less [of a' b' c'] A B C by simp
        have ac1: "edit_distance a c \<le> edit_distance a' c + 1"
          and ac2: "edit_distance a c \<le> edit_distance a c' + 1"
          and ac3: "edit_distance a c \<le> edit_distance a' c' + (if x \<noteq> z then 1 else 0)"
          unfolding A C by simp_all
        have ab: "edit_distance a b = edit_distance a' b + 1 \<or> edit_distance a b = edit_distance a b' + 1
            \<or> edit_distance a b = edit_distance a' b' + (if x \<noteq> y then 1 else 0)"
          unfolding A B by (simp add: min_def)
        have bc: "edit_distance b c = edit_distance b' c + 1 \<or> edit_distance b c = edit_distance b c' + 1
            \<or> edit_distance b c = edit_distance b' c' + (if y \<noteq> z then 1 else 0)"
          unfolding B C by (simp add: min_def)
        show ?thesis
          using 1 2 3 4 5 6 ac1 ac2 ac3 ab bc by (auto split: if_splits)
      qed
    qed
  qed
qed

text \<open>The recurrence also holds at the last elements, so the distance is invariant under reversal.\<close>

lemma min3_flat:
  fixes a b c d e f g h i u v :: nat
  shows "min (min a (min b c) + u) (min (min d (min e f) + u) (min g (min h i) + v))
       = min (a + u) (min (b + u) (min (c + u) (min (d + u) (min (e + u) (min (f + u)
           (min (g + v) (min (h + v) (i + v))))))))"
  by (simp only: min_add_distrib_left min.assoc)

lemma min9_transpose:
  fixes a b c d e f g h i :: nat
  shows "min a (min b (min c (min d (min e (min f (min g (min h i)))))))
       = min a (min d (min g (min b (min e (min h (min c (min f i)))))))"
  by (simp only: min.assoc min.commute min.left_commute)

lemma min_nine:
  fixes P1 P2 P3 Q1 Q2 Q3 R1 R2 R3 e k :: nat
  shows "min (min (P1 + 1) (min (P2 + 1) (P3 + k)) + 1)
           (min (min (Q1 + 1) (min (Q2 + 1) (Q3 + k)) + 1)
                (min (R1 + 1) (min (R2 + 1) (R3 + k)) + e))
       = min (min (P1 + 1) (min (Q1 + 1) (R1 + e)) + 1)
           (min (min (P2 + 1) (min (Q2 + 1) (R2 + e)) + 1)
                (min (P3 + 1) (min (Q3 + 1) (R3 + e)) + k))"
proof -
  have c: "P3 + k + 1 = P3 + 1 + k" "Q3 + k + 1 = Q3 + 1 + k" "R1 + 1 + e = R1 + e + 1"
    "R2 + 1 + e = R2 + e + 1" "R3 + k + e = R3 + e + k"
    by simp_all
  show ?thesis
    unfolding min3_flat c
    by (rule min9_transpose)
qed

lemma edit_distance_snoc:
  "edit_distance (a @ [x]) (b @ [y]) =
     min (edit_distance a (b @ [y]) + 1)
         (min (edit_distance (a @ [x]) b + 1)
              (edit_distance a b + (if x \<noteq> y then 1 else 0)))"
proof (induction "length a + length b" arbitrary: a b rule: less_induct)
  case less
  show ?case
  proof (cases a)
    case Nil
    show ?thesis
    proof (cases b)
      case Nil
      with \<open>a = []\<close> show ?thesis by simp
    next
      case (Cons b0 b')
      have ih: "edit_distance ([] @ [x]) (b' @ [y]) =
         min (edit_distance [] (b' @ [y]) + 1)
           (min (edit_distance ([] @ [x]) b' + 1) (edit_distance [] b' + (if x \<noteq> y then 1 else 0)))"
        using less [of "[]" b'] Cons \<open>a = []\<close> by simp
      show ?thesis using ih unfolding \<open>a = []\<close> Cons
        by (cases b') (auto simp: min_def)
    qed
  next
    case A: (Cons a0 a')
    show ?thesis
    proof (cases b)
      case Nil
      have ih: "edit_distance (a' @ [x]) ([] @ [y]) =
         min (edit_distance a' ([] @ [y]) + 1)
           (min (edit_distance (a' @ [x]) [] + 1) (edit_distance a' [] + (if x \<noteq> y then 1 else 0)))"
        using less [of a' "[]"] A Nil by simp
      show ?thesis using ih unfolding A Nil
        by (cases a') (auto simp: min_def)
    next
      case B: (Cons b0 b')
      have ih1: "edit_distance (a' @ [x]) (b @ [y]) =
         min (edit_distance a' (b @ [y]) + 1)
           (min (edit_distance (a' @ [x]) b + 1) (edit_distance a' b + (if x \<noteq> y then 1 else 0)))"
        using less [of a' b] A by simp
      have ih2: "edit_distance (a @ [x]) (b' @ [y]) =
         min (edit_distance a (b' @ [y]) + 1)
           (min (edit_distance (a @ [x]) b' + 1) (edit_distance a b' + (if x \<noteq> y then 1 else 0)))"
        using less [of a b'] B by simp
      have ih3: "edit_distance (a' @ [x]) (b' @ [y]) =
         min (edit_distance a' (b' @ [y]) + 1)
           (min (edit_distance (a' @ [x]) b' + 1) (edit_distance a' b' + (if x \<noteq> y then 1 else 0)))"
        using less [of a' b'] A B by simp
      have l: "edit_distance (a @ [x]) (b @ [y]) =
          min (edit_distance (a' @ [x]) (b @ [y]) + 1)
            (min (edit_distance (a @ [x]) (b' @ [y]) + 1)
               (edit_distance (a' @ [x]) (b' @ [y]) + (if a0 \<noteq> b0 then 1 else 0)))"
        unfolding A B by simp
      have r1: "edit_distance a (b @ [y]) =
          min (edit_distance a' (b @ [y]) + 1)
            (min (edit_distance a (b' @ [y]) + 1)
               (edit_distance a' (b' @ [y]) + (if a0 \<noteq> b0 then 1 else 0)))"
        unfolding A B by simp
      have r2: "edit_distance (a @ [x]) b =
          min (edit_distance (a' @ [x]) b + 1)
            (min (edit_distance (a @ [x]) b' + 1)
               (edit_distance (a' @ [x]) b' + (if a0 \<noteq> b0 then 1 else 0)))"
        unfolding A B by simp
      have r3: "edit_distance a b =
          min (edit_distance a' b + 1)
            (min (edit_distance a b' + 1)
               (edit_distance a' b' + (if a0 \<noteq> b0 then 1 else 0)))"
        unfolding A B by simp
      show ?thesis
        unfolding l ih1 ih2 ih3 r1 r2 r3 by (rule min_nine)
    qed
  qed
qed

lemma edit_distance_rev: "edit_distance (rev xs) (rev ys) = edit_distance xs ys"
  by (induction xs ys rule: edit_distance.induct) (simp_all add: edit_distance_snoc)

section \<open>The rows of levenshtein\_distance\<close>

lemma length_row_of [simp]: "length (row_of A s2) = length s2 + 1"
  by (simp add: row_of_def del: upt_Suc)

lemma row_of_nth: "j \<le> length s2 \<Longrightarrow> row_of A s2 ! j = edit_distance A (rev (take j s2))"
  by (simp add: row_of_def del: upt_Suc)

lemma row_of_Nil: "row_of [] s2 = [0..<length s2 + 1]"
  by (rule nth_equalityI) (simp_all add: row_of_def del: upt_Suc)

lemma py_index_row_of:
  "j \<le> length s2 \<Longrightarrow> py_index (row_of A s2) j = Some (edit_distance A (rev (take j s2)))"
  by (simp add: py_index_def row_of_nth)

lemma inner_step_row:
  assumes "k < length s2"
  shows "inner_step c1 (row_of A s2) (k, s2 ! k)
           (Some (map (\<lambda>j. edit_distance (c1 # A) (rev (take j s2))) [0..<Suc k]))
       = Some (map (\<lambda>j. edit_distance (c1 # A) (rev (take j s2))) [0..<Suc (Suc k)])"
proof -
  let ?f = "\<lambda>j. edit_distance (c1 # A) (rev (take j s2))"
  have cur: "py_index (map ?f [0..<Suc k]) k = Some (?f k)"
    by (simp add: py_index_def del: upt_Suc)
  have p1: "py_index (row_of A s2) (k + 1) = Some (edit_distance A (rev (take (Suc k) s2)))"
    using assms py_index_row_of [of "Suc k" s2 A] by simp
  have p0: "py_index (row_of A s2) k = Some (edit_distance A (rev (take k s2)))"
    using assms py_index_row_of [of k s2 A] by simp
  have tk: "rev (take (Suc k) s2) = s2 ! k # rev (take k s2)"
    using assms by (simp add: take_Suc_conv_app_nth)
  have new: "?f (Suc k) =
     min (edit_distance A (rev (take (Suc k) s2)) + 1)
       (min (?f k + 1) (edit_distance A (rev (take k s2)) + (if c1 \<noteq> s2 ! k then 1 else 0)))"
    unfolding tk by simp
  have app: "map ?f [0..<Suc (Suc k)] = map ?f [0..<Suc k] @ [?f (Suc k)]"
    by simp
  show ?thesis
    unfolding inner_step_def app new
    by (simp only: cur p1 p0 option.case fst_conv snd_conv Let_def)
qed

lemma inner_fold_row:
  assumes "k \<le> length s2"
  shows "fold (inner_step c1 (row_of A s2)) (enumerate k (drop k s2))
           (Some (map (\<lambda>j. edit_distance (c1 # A) (rev (take j s2))) [0..<Suc k]))
       = Some (row_of (c1 # A) s2)"
  using assms
proof (induction "length s2 - k" arbitrary: k)
  case 0
  then have "k = length s2" by simp
  then show ?case by (simp add: row_of_def del: upt_Suc)
next
  case (Suc n)
  then have k: "k < length s2" by simp
  have d: "drop k s2 = s2 ! k # drop (Suc k) s2"
    using k by (simp add: Cons_nth_drop_Suc)
  have ih: "fold (inner_step c1 (row_of A s2)) (enumerate (Suc k) (drop (Suc k) s2))
           (Some (map (\<lambda>j. edit_distance (c1 # A) (rev (take j s2))) [0..<Suc (Suc k)]))
       = Some (row_of (c1 # A) s2)"
    using Suc.hyps(1) [of "Suc k"] Suc.hyps(2) k by simp
  show ?case
    unfolding d by (simp only: enumerate_simps fold_simps inner_step_row [OF k] ih)
qed

lemma outer_step_row:
  "outer_step s2 (length A, c1) (Some (row_of A s2)) = Some (row_of (c1 # A) s2)"
proof -
  have "[length A + 1] = map (\<lambda>j. edit_distance (c1 # A) (rev (take j s2))) [0..<Suc 0]"
    by simp
  then show ?thesis
    unfolding outer_step_def using inner_fold_row [of 0 s2 c1 A]
    by (simp del: upt_Suc)
qed

lemma outer_fold_row:
  assumes "i \<le> length s1"
  shows "fold (outer_step s2) (enumerate i (drop i s1)) (Some (row_of (rev (take i s1)) s2))
       = Some (row_of (rev s1) s2)"
  using assms
proof (induction "length s1 - i" arbitrary: i)
  case 0
  then show ?case by simp
next
  case (Suc n)
  then have i: "i < length s1" by simp
  have d: "drop i s1 = s1 ! i # drop (Suc i) s1"
    using i by (simp add: Cons_nth_drop_Suc)
  have tk: "rev (take (Suc i) s1) = s1 ! i # rev (take i s1)"
    using i by (simp add: take_Suc_conv_app_nth)
  have step: "outer_step s2 (i, s1 ! i) (Some (row_of (rev (take i s1)) s2))
      = Some (row_of (rev (take (Suc i) s1)) s2)"
    unfolding tk using outer_step_row [of s2 "rev (take i s1)" "s1 ! i"] i by simp
  have ih: "fold (outer_step s2) (enumerate (Suc i) (drop (Suc i) s1))
      (Some (row_of (rev (take (Suc i) s1)) s2)) = Some (row_of (rev s1) s2)"
    using Suc.hyps(1) [of "Suc i"] Suc.hyps(2) i by simp
  show ?case
    unfolding d by (simp only: enumerate_simps fold_simps step ih)
qed

lemma py_last_row_of: "py_last (row_of A s2) = Some (edit_distance A (rev s2))"
  unfolding py_last_def row_of_def by simp

lemma levenshtein_rows:
  "fold (outer_step s2) (enumerate 0 s1) (Some [0..<length s2 + 1]) = Some (row_of (rev s1) s2)"
  using outer_fold_row [of 0 s1 s2] by (simp add: row_of_Nil del: upt_Suc)

lemma levenshtein_distance_ge:
  assumes "\<not> length s1 < length s2"
  shows "levenshtein_distance s1 s2 = Some (edit_distance s1 s2)"
proof (cases "length s2 = 0")
  case True
  then show ?thesis using assms by (subst levenshtein_distance.simps) simp
next
  case False
  with assms have "levenshtein_distance s1 s2 =
      (case fold (outer_step s2) (enumerate 0 s1) (Some [0..<length s2 + 1]) of
         None \<Rightarrow> None
       | Some previous_row \<Rightarrow> py_last previous_row)"
    by (subst levenshtein_distance.simps) simp
  then show ?thesis
    by (simp only: levenshtein_rows option.case py_last_row_of edit_distance_rev)
qed

lemma levenshtein_distance_correct:
  "levenshtein_distance s1 s2 = Some (edit_distance s1 s2)"
proof (cases "length s1 < length s2")
  case True
  then have "levenshtein_distance s1 s2 = levenshtein_distance s2 s1"
    by (subst levenshtein_distance.simps) simp
  also have "\<dots> = Some (edit_distance s2 s1)"
    using True by (intro levenshtein_distance_ge) simp
  finally show ?thesis by (simp add: edit_distance_sym)
next
  case False
  then show ?thesis by (rule levenshtein_distance_ge)
qed

section \<open>The edit distance is the length of a shortest edit script\<close>

lemma edit_distance_prefix: "edit_distance (u @ xs) (u @ ys) \<le> edit_distance xs ys"
  by (induction u) (simp_all add: min.coboundedI2)

lemma edit_distance_cons_right: "edit_distance xs (c # xs) \<le> 1"
proof (cases xs)
  case Nil
  then show ?thesis by simp
next
  case (Cons x xs')
  have "edit_distance (x # xs') (c # x # xs') \<le> edit_distance (x # xs') (x # xs') + 1"
    by (simp only: edit_distance.simps min.cobounded1 min.coboundedI2)
  then show ?thesis unfolding Cons by simp
qed

lemma edit_distance_cons_left: "edit_distance (c # xs) xs \<le> 1"
  using edit_distance_cons_right [of xs c] by (simp add: edit_distance_sym)

lemma edit_distance_subst: "edit_distance (c # xs) (d # xs) \<le> 1"
  by (simp add: min.coboundedI2)

lemma apply_edit_distance:
  assumes "apply_edit e xs = Some ys"
  shows "edit_distance xs ys \<le> 1"
proof (cases e)
  case (Ins i c)
  with assms have i: "i \<le> length xs" and ys: "ys = take i xs @ c # drop i xs"
    by (auto split: if_splits)
  have "edit_distance (take i xs @ drop i xs) (take i xs @ c # drop i xs)
      \<le> edit_distance (drop i xs) (c # drop i xs)"
    by (rule edit_distance_prefix)
  also have "\<dots> \<le> 1" by (rule edit_distance_cons_right)
  finally show ?thesis unfolding ys by simp
next
  case (Del i)
  with assms have i: "i < length xs" and ys: "ys = take i xs @ drop (Suc i) xs"
    by (auto split: if_splits)
  have xs: "xs = take i xs @ xs ! i # drop (Suc i) xs"
    using i by (simp add: id_take_nth_drop [symmetric])
  have "edit_distance (take i xs @ xs ! i # drop (Suc i) xs) (take i xs @ drop (Suc i) xs)
      \<le> edit_distance (xs ! i # drop (Suc i) xs) (drop (Suc i) xs)"
    by (rule edit_distance_prefix)
  also have "\<dots> \<le> 1" by (rule edit_distance_cons_left)
  finally show ?thesis unfolding ys using xs by simp
next
  case (Sub i c)
  with assms have i: "i < length xs" and ys: "ys = xs[i := c]"
    by (auto split: if_splits)
  have xs: "xs = take i xs @ xs ! i # drop (Suc i) xs"
    using i by (simp add: id_take_nth_drop [symmetric])
  have up: "xs[i := c] = take i xs @ c # drop (Suc i) xs"
    using i by (simp add: upd_conv_take_nth_drop)
  have "edit_distance (take i xs @ xs ! i # drop (Suc i) xs) (take i xs @ c # drop (Suc i) xs)
      \<le> edit_distance (xs ! i # drop (Suc i) xs) (c # drop (Suc i) xs)"
    by (rule edit_distance_prefix)
  also have "\<dots> \<le> 1" by (rule edit_distance_subst)
  finally show ?thesis unfolding ys up using xs by simp
qed

lemma apply_edits_lower_bound:
  "apply_edits es xs = Some ys \<Longrightarrow> edit_distance xs ys \<le> length es"
proof (induction es arbitrary: xs)
  case Nil
  then show ?case by simp
next
  case (Cons e es)
  then obtain zs where z: "apply_edit e xs = Some zs" and r: "apply_edits es zs = Some ys"
    by (auto split: option.splits)
  have "edit_distance xs ys \<le> edit_distance xs zs + edit_distance zs ys"
    by (rule edit_distance_triangle)
  also have "\<dots> \<le> 1 + length es"
    using apply_edit_distance [OF z] Cons.IH [OF r] by simp
  finally show ?case by simp
qed

lemma apply_edits_append:
  "apply_edits (es @ fs) xs =
     (case apply_edits es xs of None \<Rightarrow> None | Some ys \<Rightarrow> apply_edits fs ys)"
  by (induction es arbitrary: xs) (simp_all split: option.splits)

lemma apply_edit_shift:
  "apply_edit e xs = Some ys \<Longrightarrow> apply_edit (shift e) (c # xs) = Some (c # ys)"
  by (cases e) (auto split: if_splits)

lemma apply_edits_shift:
  "apply_edits es xs = Some ys \<Longrightarrow> apply_edits (map shift es) (c # xs) = Some (c # ys)"
proof (induction es arbitrary: xs)
  case Nil
  then show ?case by simp
next
  case (Cons e es)
  then obtain zs where z: "apply_edit e xs = Some zs" and r: "apply_edits es zs = Some ys"
    by (auto split: option.splits)
  show ?case
    using apply_edit_shift [OF z, of c] Cons.IH [OF r] by simp
qed

lemma edit_script_exists:
  "\<exists>es. length es = edit_distance xs ys \<and> apply_edits es xs = Some ys"
proof (induction xs ys rule: edit_distance.induct)
  case (1 ys)
  show ?case
  proof (induction ys)
    case Nil
    show ?case by simp
  next
    case (Cons y ys)
    then obtain es where es: "length es = edit_distance [] ys" "apply_edits es [] = Some ys"
      by blast
    have "apply_edits (es @ [Ins 0 y]) [] = Some (y # ys)"
      by (simp add: apply_edits_append es)
    moreover have "length (es @ [Ins 0 y]) = edit_distance [] (y # ys)"
      using es by simp
    ultimately show ?case by blast
  qed
next
  case (2 x xs)
  show ?case
  proof (induction xs arbitrary: x)
    case Nil
    have "apply_edits [Del 0] [x] = Some []" by simp
    then show ?case by (intro exI [of _ "[Del 0]"]) simp
  next
    case (Cons a xs)
    from Cons [of a] obtain es where es: "length es = edit_distance (a # xs) []"
      "apply_edits es (a # xs) = Some []"
      by blast
    have "apply_edits (Del 0 # es) (x # a # xs) = Some []" using es by simp
    moreover have "length (Del 0 # es) = edit_distance (x # a # xs) []" using es by simp
    ultimately show ?case by blast
  qed
next
  case (3 x xs y ys)
  from 3(1) obtain e1 where e1: "length e1 = edit_distance xs (y # ys)"
    "apply_edits e1 xs = Some (y # ys)" by blast
  from 3(2) obtain e2 where e2: "length e2 = edit_distance (x # xs) ys"
    "apply_edits e2 (x # xs) = Some ys" by blast
  from 3(3) obtain e3 where e3: "length e3 = edit_distance xs ys"
    "apply_edits e3 xs = Some ys" by blast
  have s1: "length (Del 0 # e1) = edit_distance xs (y # ys) + 1"
    "apply_edits (Del 0 # e1) (x # xs) = Some (y # ys)"
    using e1 by simp_all
  have s2: "length (e2 @ [Ins 0 y]) = edit_distance (x # xs) ys + 1"
    "apply_edits (e2 @ [Ins 0 y]) (x # xs) = Some (y # ys)"
    using e2 by (simp_all add: apply_edits_append)
  have sh: "apply_edits (map shift e3) (x # xs) = Some (x # ys)"
    using e3(2) by (rule apply_edits_shift)
  have s3: "length (map shift e3 @ (if x \<noteq> y then [Sub 0 y] else []))
      = edit_distance xs ys + (if x \<noteq> y then 1 else 0)"
    "apply_edits (map shift e3 @ (if x \<noteq> y then [Sub 0 y] else [])) (x # xs) = Some (y # ys)"
    using e3(1) sh by (simp_all add: apply_edits_append)
  have "edit_distance (x # xs) (y # ys) = edit_distance xs (y # ys) + 1
      \<or> edit_distance (x # xs) (y # ys) = edit_distance (x # xs) ys + 1
      \<or> edit_distance (x # xs) (y # ys) = edit_distance xs ys + (if x \<noteq> y then 1 else 0)"
    by (simp add: min_def)
  then show ?case
    using s1 s2 s3 by metis
qed

text \<open>
  Claim C5. \<open>levenshtein_distance\<close> never raises and returns the textbook edit distance: the
  value of the textbook recurrence, which is the length of a shortest script of
  single-element insertions, deletions and substitutions (each of cost 1, no transposition)
  that turns the first string into the second. In particular the distance from a string to
  itself is 0, the distance to the empty string is the length, and the triangle inequality
  holds for any three strings.
\<close>

theorem levenshtein_distance_textbook:
  "levenshtein_distance s1 s2 = Some (edit_distance s1 s2)
   \<and> (\<exists>es. length es = edit_distance s1 s2 \<and> apply_edits es s1 = Some s2)
   \<and> (\<forall>es. apply_edits es s1 = Some s2 \<longrightarrow> edit_distance s1 s2 \<le> length es)
   \<and> levenshtein_distance a a = Some 0
   \<and> levenshtein_distance a [] = Some (length a)
   \<and> (\<exists>x y z. levenshtein_distance a c = Some x \<and> levenshtein_distance a b = Some y
         \<and> levenshtein_distance b c = Some z \<and> x \<le> y + z)"
  using edit_script_exists [of s1 s2] apply_edits_lower_bound [of _ s1 s2]
  by (simp add: levenshtein_distance_correct edit_distance_triangle)

theorem levenshtein_distance_textbook_witness:
  "apply_edits [Sub 2 0x05D3] [0x05D0, 0x05D4, 0x05D1] = Some [0x05D0, 0x05D4, 0x05D3 :: codepoint]
   \<and> edit_distance [0x05D0, 0x05D4, 0x05D1] [0x05D0, 0x05D4, 0x05D3 :: codepoint]
        \<le> length [Sub 2 (0x05D3 :: codepoint)]
   \<and> levenshtein_distance [0x05D0, 0x05D4, 0x05D1] [0x05D0, 0x05D4, 0x05D3] = Some 1"
proof (intro conjI)
  show h: "apply_edits [Sub 2 0x05D3] [0x05D0, 0x05D4, 0x05D1]
      = Some [0x05D0, 0x05D4, 0x05D3 :: codepoint]"
    by simp
  show "edit_distance [0x05D0, 0x05D4, 0x05D1] [0x05D0, 0x05D4, 0x05D3 :: codepoint]
        \<le> length [Sub 2 (0x05D3 :: codepoint)]"
    by (rule levenshtein_distance_textbook
        [THEN conjunct2, THEN conjunct2, THEN conjunct1, THEN spec, THEN mp, OF h])
  show "levenshtein_distance [0x05D0, 0x05D4, 0x05D1] [0x05D0, 0x05D4, 0x05D3] = Some 1"
    by (simp add: levenshtein_distance.simps outer_step_def inner_step_def py_index_def
        py_last_def)
qed

section \<open>The normalised form\<close>

lemma normalize_hebrew_str_of:
  "normalize_hebrew mn text =
     filter is_consonant (map base_letter (filter (\<lambda>c. \<not> mn c \<and> \<not> is_point c) (str_of text)))"
  by (cases "text") (simp_all add: str_of_def normalize_hebrew_Some)

lemma normalize_hebrew_survivors_str_of:
  "normalize_hebrew mn text = map base_letter (filter (\<lambda>c. is_consonant c \<and> \<not> mn c) (str_of text))"
  by (cases "text") (simp_all add: str_of_def normalize_hebrew_survivors)

lemma is_hebrew_text_iff: "is_hebrew_text text = (\<exists>c \<in> set (str_of text). is_consonant c)"
  by (cases "text") (auto simp: is_hebrew_text_def py_not_def str_of_def list_ex_iff)

text \<open>
  Claim C4. Every code point of \<open>normalize_hebrew(text)\<close> lies in U+05D0 to U+05EA and is
  none of the five final forms; the result is the input with marks and points dropped, final
  forms mapped to their base letters and every other code point removed, so it is the image
  under the final-form table of a subsequence of the input (the order is preserved); and an
  input with no Hebrew letter gives the empty string.
\<close>

theorem normalize_hebrew_alphabet:
  "(\<forall>c \<in> set (normalize_hebrew mn text). is_consonant c \<and> \<not> is_final_form c)
   \<and> normalize_hebrew mn text =
       filter is_consonant
         (map base_letter (filter (\<lambda>c. \<not> mn c \<and> \<not> is_point c) (str_of text)))
   \<and> (\<exists>ys. subseq ys (str_of text) \<and> normalize_hebrew mn text = map base_letter ys)
   \<and> (\<not> is_hebrew_text text \<longrightarrow> normalize_hebrew mn text = [])"
proof (intro conjI)
  show "\<forall>c \<in> set (normalize_hebrew mn text). is_consonant c \<and> \<not> is_final_form c"
    by (auto simp: normalize_hebrew_str_of not_final_base_letter)
  show "normalize_hebrew mn text =
       filter is_consonant
         (map base_letter (filter (\<lambda>c. \<not> mn c \<and> \<not> is_point c) (str_of text)))"
    by (rule normalize_hebrew_str_of)
  show "\<exists>ys. subseq ys (str_of text) \<and> normalize_hebrew mn text = map base_letter ys"
    using normalize_hebrew_survivors_str_of [of mn "text"] subseq_filter_left by blast
  show "\<not> is_hebrew_text text \<longrightarrow> normalize_hebrew mn text = []"
    by (simp add: is_hebrew_text_iff normalize_hebrew_survivors_str_of filter_empty_conv)
qed

theorem normalize_hebrew_alphabet_witness:
  "normalize_hebrew hebrew_block_mn (Some [0x05DE, 0x05B6, 0x05DC, 0x05B6, 0x05DA, 0x05B0, 0x20, 0x41])
     = [0x05DE, 0x05DC, 0x05DB]
   \<and> list_all (\<lambda>c. is_consonant c \<and> \<not> is_final_form c)
        (normalize_hebrew hebrew_block_mn (Some [0x05DE, 0x05B6, 0x05DC, 0x05B6, 0x05DA, 0x05B0, 0x20, 0x41]))
   \<and> \<not> is_hebrew_text (Some [0x20, 0x41])
   \<and> normalize_hebrew hebrew_block_mn (Some [0x20, 0x41]) = []"
proof -
  have h: "\<not> is_hebrew_text (Some [0x20, 0x41])"
    by (simp add: is_hebrew_text_def py_not_def is_consonant_def)
  have e: "normalize_hebrew hebrew_block_mn (Some [0x05DE, 0x05B6, 0x05DC, 0x05B6, 0x05DA, 0x05B0, 0x20, 0x41])
     = [0x05DE, 0x05DC, 0x05DB]"
    by (simp add: normalize_hebrew_Some hebrew_block_mn_def is_point_def is_consonant_def
        base_letter_def is_final_form_def)
  have a: "list_all (\<lambda>c. is_consonant c \<and> \<not> is_final_form c)
        (normalize_hebrew hebrew_block_mn (Some [0x05DE, 0x05B6, 0x05DC, 0x05B6, 0x05DA, 0x05B0, 0x20, 0x41]))"
    unfolding list_all_iff
    by (rule normalize_hebrew_alphabet [THEN conjunct1])
  have n: "normalize_hebrew hebrew_block_mn (Some [0x20, 0x41]) = []"
    by (rule normalize_hebrew_alphabet [THEN conjunct2, THEN conjunct2, THEN conjunct2, THEN mp, OF h])
  show ?thesis
    by (intro conjI e a h n)
qed

text \<open>
  Claim C3. Normalising a normalised string changes nothing:
  \<open>normalize_hebrew(normalize_hebrew(x)) == normalize_hebrew(x)\<close>. The Unicode database is a
  parameter of the model; the hypothesis is that it gives no Hebrew letter (U+05D0 to U+05EA)
  the category \<open>Mn\<close>, as every version of Unicode does (their category is \<open>Lo\<close>).
\<close>

theorem normalize_hebrew_idempotent:
  assumes "\<not> (\<exists>c. is_consonant c \<and> mn c)"
  shows "normalize_hebrew mn (Some (normalize_hebrew mn text)) = normalize_hebrew mn text"
proof -
  have keep: "is_consonant (base_letter c) \<and> \<not> mn (base_letter c)" if "is_consonant c" for c
    using that assms consonant_base_letter by blast
  have "map base_letter (filter (\<lambda>c. is_consonant c \<and> \<not> mn c) (map base_letter xs))
        = map base_letter xs" if "\<forall>c \<in> set xs. is_consonant c" for xs
    using that by (induction xs) (simp_all add: keep base_letter_idem)
  from this [of "filter (\<lambda>c. is_consonant c \<and> \<not> mn c) (str_of text)"]
  show ?thesis
    unfolding normalize_hebrew_survivors normalize_hebrew_survivors_str_of [of mn "text"]
    by simp
qed

theorem normalize_hebrew_idempotent_witness:
  "\<not> (\<exists>c. is_consonant c \<and> hebrew_block_mn c)
   \<and> normalize_hebrew hebrew_block_mn
        (Some (normalize_hebrew hebrew_block_mn (Some [0x05DE, 0x05B6, 0x05DC, 0x05B6, 0x05DA, 0x05B0, 0x20, 0x41])))
     = normalize_hebrew hebrew_block_mn (Some [0x05DE, 0x05B6, 0x05DC, 0x05B6, 0x05DA, 0x05B0, 0x20, 0x41])"
proof -
  have h: "\<not> (\<exists>c. is_consonant c \<and> hebrew_block_mn c)"
    by (auto simp: is_consonant_def hebrew_block_mn_def)
  show ?thesis
    using h normalize_hebrew_idempotent [OF h, of "Some [0x05DE, 0x05B6, 0x05DC, 0x05B6, 0x05DA, 0x05B0, 0x20, 0x41]"]
    by simp
qed

section \<open>The tiers of compare\_hebrew\<close>

lemma normalize_differ_nonempty:
  "normalize_hebrew mn text1 \<noteq> normalize_hebrew mn text2 \<Longrightarrow>
   max (length (normalize_hebrew mn text1)) (length (normalize_hebrew mn text2)) \<noteq> 0"
  by auto

lemma compare_hebrew_empty:
  "py_not text1 \<or> py_not text2 \<Longrightarrow> compare_hebrew mn text1 text2 fuzzy we wc = Some 0"
  unfolding compare_hebrew_def by simp

lemma compare_hebrew_exact:
  "\<not> py_not text1 \<Longrightarrow> \<not> py_not text2 \<Longrightarrow> text1 = text2 \<Longrightarrow>
   compare_hebrew mn text1 text2 fuzzy we wc = Some we"
  unfolding compare_hebrew_def by simp

lemma compare_hebrew_consonantal:
  "\<not> py_not text1 \<Longrightarrow> \<not> py_not text2 \<Longrightarrow> text1 \<noteq> text2 \<Longrightarrow>
   normalize_hebrew mn text1 = normalize_hebrew mn text2 \<Longrightarrow>
   compare_hebrew mn text1 text2 fuzzy we wc = Some wc"
  unfolding compare_hebrew_def Let_def by simp

lemma compare_hebrew_not_fuzzy:
  "\<not> py_not text1 \<Longrightarrow> \<not> py_not text2 \<Longrightarrow> text1 \<noteq> text2 \<Longrightarrow>
   normalize_hebrew mn text1 \<noteq> normalize_hebrew mn text2 \<Longrightarrow>
   compare_hebrew mn text1 text2 False we wc = Some 0"
  unfolding compare_hebrew_def Let_def by simp

lemma compare_hebrew_fuzzy_path:
  assumes "\<not> py_not text1" "\<not> py_not text2" "text1 \<noteq> text2"
    and "normalize_hebrew mn text1 \<noteq> normalize_hebrew mn text2"
  shows "compare_hebrew mn text1 text2 True we wc =
     Some (if 1 - real (edit_distance (normalize_hebrew mn text1) (normalize_hebrew mn text2))
                  / real (max (length (normalize_hebrew mn text1)) (length (normalize_hebrew mn text2))) < 0.9
                 \<and> remove_matres_lectionis (normalize_hebrew mn text1)
                     = remove_matres_lectionis (normalize_hebrew mn text2)
                 \<and> remove_matres_lectionis (normalize_hebrew mn text1) \<noteq> []
              then 0.85
              else (1 - real (edit_distance (normalize_hebrew mn text1) (normalize_hebrew mn text2))
                  / real (max (length (normalize_hebrew mn text1)) (length (normalize_hebrew mn text2)))) * 0.7)"
proof -
  have m: "max (length (normalize_hebrew mn text1)) (length (normalize_hebrew mn text2)) \<noteq> 0"
    using assms(4) by (rule normalize_differ_nonempty)
  have l: "(0 < length (remove_matres_lectionis (normalize_hebrew mn text1)))
      = (remove_matres_lectionis (normalize_hebrew mn text1) \<noteq> [])"
    by simp
  show ?thesis
    unfolding compare_hebrew_def Let_def
    using assms m by (auto simp: levenshtein_distance_correct)
qed

lemma similarity_range:
  assumes "n1 \<noteq> n2"
  shows "0 \<le> 1 - real (edit_distance n1 n2) / real (max (length n1) (length n2))"
    and "1 - real (edit_distance n1 n2) / real (max (length n1) (length n2)) \<le> 1"
proof -
  have pos: "0 < max (length n1) (length n2)" using assms by (cases n1; cases n2) auto
  have "real (edit_distance n1 n2) \<le> real (max (length n1) (length n2))"
    using edit_distance_le_max [of n1 n2] by (simp only: of_nat_le_iff)
  then have "real (edit_distance n1 n2) / real (max (length n1) (length n2)) \<le> 1"
    using pos by (simp add: divide_le_eq_1)
  then show "0 \<le> 1 - real (edit_distance n1 n2) / real (max (length n1) (length n2))" by simp
  show "1 - real (edit_distance n1 n2) / real (max (length n1) (length n2)) \<le> 1" by simp
qed

lemma fuzzy_weight_range:
  fixes s :: real
  assumes "0 \<le> s" "s \<le> 1"
  shows "0 \<le> s * 0.7" "s * 0.7 \<le> 1"
  using assms by simp_all

text \<open>
  Claim C1. With the default weights the tiers are tried in order and the first that applies
  wins: an empty (or absent) input gives \<open>0.0\<close>, also when both are empty; otherwise equal raw
  strings give \<open>1.0\<close>; otherwise equal normalised forms give exactly \<open>0.9\<close>; otherwise
  \<open>fuzzy = False\<close> gives exactly \<open>0.0\<close>.
\<close>

theorem compare_hebrew_tiers:
  "(py_not text1 \<or> py_not text2 \<longrightarrow> compare_hebrew_default mn text1 text2 fuzzy = Some 0.0)
   \<and> (\<not> py_not text1 \<and> \<not> py_not text2 \<and> text1 = text2
        \<longrightarrow> compare_hebrew_default mn text1 text2 fuzzy = Some 1.0)
   \<and> (\<not> py_not text1 \<and> \<not> py_not text2 \<and> text1 \<noteq> text2
        \<and> normalize_hebrew mn text1 = normalize_hebrew mn text2
        \<longrightarrow> compare_hebrew_default mn text1 text2 fuzzy = Some 0.9)
   \<and> (\<not> py_not text1 \<and> \<not> py_not text2 \<and> text1 \<noteq> text2
        \<and> normalize_hebrew mn text1 \<noteq> normalize_hebrew mn text2 \<and> \<not> fuzzy
        \<longrightarrow> compare_hebrew_default mn text1 text2 fuzzy = Some 0.0)"
  unfolding compare_hebrew_default_def
  using compare_hebrew_empty [of text1 text2 mn fuzzy 1 "0.9"]
    compare_hebrew_exact [of text1 text2 mn fuzzy 1 "0.9"]
    compare_hebrew_consonantal [of text1 text2 mn fuzzy 1 "0.9"]
    compare_hebrew_not_fuzzy [of text1 text2 mn 1 "0.9"]
  by (cases fuzzy) simp_all

text \<open>
  Claim C6. The comparison is symmetric: \<open>compare_hebrew(a, b, fuzzy) == compare_hebrew(b, a, fuzzy)\<close>
  for all inputs and both values of the flag, with the default weights.
\<close>

theorem compare_hebrew_symmetric:
  "compare_hebrew_default mn a b fuzzy = compare_hebrew_default mn b a fuzzy"
proof -
  consider "py_not a \<or> py_not b" | "\<not> py_not a" "\<not> py_not b" "a = b"
    | "\<not> py_not a" "\<not> py_not b" "a \<noteq> b" "normalize_hebrew mn a = normalize_hebrew mn b"
    | "\<not> py_not a" "\<not> py_not b" "a \<noteq> b" "normalize_hebrew mn a \<noteq> normalize_hebrew mn b" "\<not> fuzzy"
    | "\<not> py_not a" "\<not> py_not b" "a \<noteq> b" "normalize_hebrew mn a \<noteq> normalize_hebrew mn b" "fuzzy"
    by blast
  then show ?thesis
  proof cases
    case 1
    then have "py_not b \<or> py_not a" by blast
    with 1 show ?thesis
      unfolding compare_hebrew_default_def by (simp only: compare_hebrew_empty)
  next
    case 2
    then show ?thesis by simp
  next
    case 3
    then show ?thesis
      unfolding compare_hebrew_default_def
      using compare_hebrew_consonantal [of a b mn fuzzy 1 "0.9"]
        compare_hebrew_consonantal [of b a mn fuzzy 1 "0.9"] by simp
  next
    case 4
    then show ?thesis
      unfolding compare_hebrew_default_def
      using compare_hebrew_not_fuzzy [of a b mn 1 "0.9"]
        compare_hebrew_not_fuzzy [of b a mn 1 "0.9"] by simp
  next
    case 5
    from 5(5) have f: "fuzzy = True" by simp
    have ab: "\<not> py_not a" "\<not> py_not b" "a \<noteq> b" "normalize_hebrew mn a \<noteq> normalize_hebrew mn b"
      using 5 by simp_all
    have ba: "\<not> py_not b" "\<not> py_not a" "b \<noteq> a" "normalize_hebrew mn b \<noteq> normalize_hebrew mn a"
      using 5 by simp_all
    show ?thesis
      unfolding f compare_hebrew_default_def
        compare_hebrew_fuzzy_path [OF ab] compare_hebrew_fuzzy_path [OF ba]
      by (auto simp: edit_distance_sym [of "normalize_hebrew mn b" "normalize_hebrew mn a"] max.commute)
  qed
qed

text \<open>
  Claim C7. \<open>compare_hebrew\<close> with the default weights never raises and returns a value
  between 0 and 1, for every pair of inputs (absent, empty, without Hebrew letters or
  otherwise) and either flag. \<open>normalize_hebrew\<close> has no operation that can raise: it is a
  total function of the model, it returns the empty string on an absent or empty input and
  never more code points than it was given.
\<close>

theorem compare_hebrew_total_range:
  "(\<exists>v. compare_hebrew_default mn text1 text2 fuzzy = Some v \<and> 0 \<le> v \<and> v \<le> 1)
   \<and> normalize_hebrew mn None = [] \<and> normalize_hebrew mn (Some []) = []
   \<and> length (normalize_hebrew mn text1) \<le> length (str_of text1)"
proof (intro conjI)
  show "normalize_hebrew mn None = []" by simp
  show "normalize_hebrew mn (Some []) = []" by (simp add: normalize_hebrew_Some)
  show "length (normalize_hebrew mn text1) \<le> length (str_of text1)"
    by (simp add: normalize_hebrew_survivors_str_of)
  consider "py_not text1 \<or> py_not text2" | "\<not> py_not text1" "\<not> py_not text2" "text1 = text2"
    | "\<not> py_not text1" "\<not> py_not text2" "text1 \<noteq> text2"
      "normalize_hebrew mn text1 = normalize_hebrew mn text2"
    | "\<not> py_not text1" "\<not> py_not text2" "text1 \<noteq> text2"
      "normalize_hebrew mn text1 \<noteq> normalize_hebrew mn text2" "\<not> fuzzy"
    | "\<not> py_not text1" "\<not> py_not text2" "text1 \<noteq> text2"
      "normalize_hebrew mn text1 \<noteq> normalize_hebrew mn text2" "fuzzy"
    by blast
  then have "\<exists>v. compare_hebrew mn text1 text2 fuzzy 1 0.9 = Some v \<and> 0 \<le> v \<and> v \<le> 1"
  proof cases
    case 1
    then have "compare_hebrew mn text1 text2 fuzzy 1 0.9 = Some 0" by (rule compare_hebrew_empty)
    then show ?thesis by simp
  next
    case 2
    then have "compare_hebrew mn text1 text2 fuzzy 1 0.9 = Some 1" by (rule compare_hebrew_exact)
    then show ?thesis by simp
  next
    case 3
    then have "compare_hebrew mn text1 text2 fuzzy 1 0.9 = Some 0.9"
      by (rule compare_hebrew_consonantal)
    moreover have "(0::real) \<le> 0.9" "(0.9::real) \<le> 1" by simp_all
    ultimately show ?thesis by blast
  next
    case 4
    then have "compare_hebrew mn text1 text2 fuzzy 1 0.9 = Some 0"
      using compare_hebrew_not_fuzzy [of text1 text2 mn 1 "0.9"] by simp
    then show ?thesis by simp
  next
    case 5
    let ?s = "1 - real (edit_distance (normalize_hebrew mn text1) (normalize_hebrew mn text2))
       / real (max (length (normalize_hebrew mn text1)) (length (normalize_hebrew mn text2)))"
    have r: "0 \<le> ?s" "?s \<le> 1" using similarity_range 5(4) by blast+
    have s7: "0 \<le> ?s * 0.7" "?s * 0.7 \<le> 1"
      using r by (rule fuzzy_weight_range)+
    have c85: "(0::real) \<le> 0.85" "(0.85::real) \<le> 1" by simp_all
    from 5(5) have f: "fuzzy = True" by simp
    show ?thesis
      unfolding f compare_hebrew_fuzzy_path [OF 5(1-4)]
      using s7 c85 by (simp only: option.inject split: if_split) blast
  qed
  then show "\<exists>v. compare_hebrew_default mn text1 text2 fuzzy = Some v \<and> 0 \<le> v \<and> v \<le> 1"
    unfolding compare_hebrew_default_def by simp
qed

text \<open>Evaluation at concrete inputs.\<close>

lemmas normalize_eval =
  normalize_hebrew_Some hebrew_block_mn_def is_point_def is_consonant_def base_letter_def
  is_final_form_def

lemmas levenshtein_eval =
  levenshtein_distance.simps outer_step_def inner_step_def py_index_def py_last_def

theorem compare_hebrew_tiers_witness:
  "compare_hebrew_default hebrew_block_mn (Some []) (Some []) True = Some 0.0
   \<and> compare_hebrew_default hebrew_block_mn None (Some [0x05D0, 0x05D4, 0x05D1]) True = Some 0.0
   \<and> compare_hebrew_default hebrew_block_mn
        (Some [0x05D0, 0x05D4, 0x05D1]) (Some [0x05D0, 0x05D4, 0x05D1]) True = Some 1.0
   \<and> compare_hebrew_default hebrew_block_mn
        (Some [0x05D0, 0x05B8, 0x05D4, 0x05B7, 0x05D1]) (Some [0x05D0, 0x05D4, 0x05D1]) True = Some 0.9
   \<and> compare_hebrew_default hebrew_block_mn
        (Some [0x05D0, 0x05D1]) (Some [0x05D2, 0x05D3]) False = Some 0.0"
proof (intro conjI)
  show "compare_hebrew_default hebrew_block_mn (Some []) (Some []) True = Some 0.0"
    by (rule compare_hebrew_tiers [THEN conjunct1, THEN mp]) (simp add: py_not_def)
  show "compare_hebrew_default hebrew_block_mn None (Some [0x05D0, 0x05D4, 0x05D1]) True = Some 0.0"
    by (rule compare_hebrew_tiers [THEN conjunct1, THEN mp]) (simp add: py_not_def)
  show "compare_hebrew_default hebrew_block_mn
        (Some [0x05D0, 0x05D4, 0x05D1]) (Some [0x05D0, 0x05D4, 0x05D1]) True = Some 1.0"
    by (rule compare_hebrew_tiers [THEN conjunct2, THEN conjunct1, THEN mp]) (simp add: py_not_def)
  show "compare_hebrew_default hebrew_block_mn
        (Some [0x05D0, 0x05B8, 0x05D4, 0x05B7, 0x05D1]) (Some [0x05D0, 0x05D4, 0x05D1]) True = Some 0.9"
    by (rule compare_hebrew_tiers [THEN conjunct2, THEN conjunct2, THEN conjunct1, THEN mp])
       (simp add: py_not_def normalize_eval)
  show "compare_hebrew_default hebrew_block_mn
        (Some [0x05D0, 0x05D1]) (Some [0x05D2, 0x05D3]) False = Some 0.0"
    by (rule compare_hebrew_tiers [THEN conjunct2, THEN conjunct2, THEN conjunct2, THEN mp])
       (simp add: py_not_def normalize_eval)
qed

text \<open>
  Claim C2. For non-empty, different strings whose normalised forms differ, with
  \<open>fuzzy = True\<close>: the edit distance \<open>d\<close> of the normalised forms is computed without error
  and, with \<open>s = 1 - d / max(len(norm1), len(norm2))\<close>, the result is \<open>0.85\<close> when \<open>s < 0.9\<close>
  and the forms collapsed by \<open>remove_matres_lectionis\<close> are equal and non-empty, and
  \<open>s * 0.7\<close> otherwise; a maximal length of 0 would give \<open>0.0\<close>.
\<close>

theorem compare_hebrew_fuzzy_formula:
  assumes "\<not> py_not text1" "\<not> py_not text2" "text1 \<noteq> text2"
    and "normalize_hebrew mn text1 \<noteq> normalize_hebrew mn text2"
  shows "\<exists>d. levenshtein_distance (normalize_hebrew mn text1) (normalize_hebrew mn text2) = Some d
    \<and> compare_hebrew_default mn text1 text2 True =
        Some (let norm1 = normalize_hebrew mn text1;
                  norm2 = normalize_hebrew mn text2;
                  max_len = max (length norm1) (length norm2);
                  s = 1 - real d / real max_len
              in if max_len = 0 then 0.0
                 else if s < 0.9
                         \<and> remove_matres_lectionis norm1 = remove_matres_lectionis norm2
                         \<and> remove_matres_lectionis norm1 \<noteq> []
                      then 0.85
                      else s * 0.7)"
proof -
  have m: "max (length (normalize_hebrew mn text1)) (length (normalize_hebrew mn text2)) \<noteq> 0"
    using assms(4) by (rule normalize_differ_nonempty)
  show ?thesis
    unfolding compare_hebrew_default_def compare_hebrew_fuzzy_path [OF assms] Let_def
    using m by (simp add: levenshtein_distance_correct)
qed

theorem compare_hebrew_fuzzy_formula_witness:
  "compare_hebrew_default hebrew_block_mn
      (Some [0x05E7, 0x05D5, 0x05D5, 0x05DD]) (Some [0x05E7, 0x05D5, 0x05DD]) True = Some 0.85
   \<and> compare_hebrew_default hebrew_block_mn
      (Some [0x05D0, 0x05D4, 0x05D1]) (Some [0x05D0, 0x05D4, 0x05D3]) True = Some ((1 - 1 / 3) * 0.7)
   \<and> compare_hebrew_default hebrew_block_mn
      (Some [0x05D0, 0x05D0, 0x05D0, 0x05D0, 0x05D0, 0x05D0, 0x05D0, 0x05D0, 0x05D0, 0x05D5, 0x05D5])
      (Some [0x05D0, 0x05D0, 0x05D0, 0x05D0, 0x05D0, 0x05D0, 0x05D0, 0x05D0, 0x05D0, 0x05D5]) True
       = Some ((1 - 1 / 11) * 0.7)"
proof (intro conjI)
  have n1: "normalize_hebrew hebrew_block_mn (Some [0x05E7, 0x05D5, 0x05D5, 0x05DD])
      = [0x05E7, 0x05D5, 0x05D5, 0x05DE]"
    and n2: "normalize_hebrew hebrew_block_mn (Some [0x05E7, 0x05D5, 0x05DD]) = [0x05E7, 0x05D5, 0x05DE]"
    by (simp_all add: normalize_eval)
  have d: "levenshtein_distance [0x05E7, 0x05D5, 0x05D5, 0x05DE] [0x05E7, 0x05D5, 0x05DE] = Some 1"
    by (simp add: levenshtein_eval)
  show "compare_hebrew_default hebrew_block_mn
      (Some [0x05E7, 0x05D5, 0x05D5, 0x05DD]) (Some [0x05E7, 0x05D5, 0x05DD]) True = Some 0.85"
    using compare_hebrew_fuzzy_formula [of "Some [0x05E7, 0x05D5, 0x05D5, 0x05DD]"
        "Some [0x05E7, 0x05D5, 0x05DD]" hebrew_block_mn]
    unfolding n1 n2 d by (simp add: py_not_def remove_matres_lectionis_def)
next
  have n1: "normalize_hebrew hebrew_block_mn (Some [0x05D0, 0x05D4, 0x05D1]) = [0x05D0, 0x05D4, 0x05D1]"
    and n2: "normalize_hebrew hebrew_block_mn (Some [0x05D0, 0x05D4, 0x05D3]) = [0x05D0, 0x05D4, 0x05D3]"
    by (simp_all add: normalize_eval)
  have d: "levenshtein_distance [0x05D0, 0x05D4, 0x05D1] [0x05D0, 0x05D4, 0x05D3] = Some 1"
    by (simp add: levenshtein_eval)
  show "compare_hebrew_default hebrew_block_mn
      (Some [0x05D0, 0x05D4, 0x05D1]) (Some [0x05D0, 0x05D4, 0x05D3]) True = Some ((1 - 1 / 3) * 0.7)"
    using compare_hebrew_fuzzy_formula [of "Some [0x05D0, 0x05D4, 0x05D1]"
        "Some [0x05D0, 0x05D4, 0x05D3]" hebrew_block_mn]
    unfolding n1 n2 d by (simp add: py_not_def remove_matres_lectionis_def)
next
  have n1: "normalize_hebrew hebrew_block_mn
      (Some [0x05D0, 0x05D0, 0x05D0, 0x05D0, 0x05D0, 0x05D0, 0x05D0, 0x05D0, 0x05D0, 0x05D5, 0x05D5])
      = [0x05D0, 0x05D0, 0x05D0, 0x05D0, 0x05D0, 0x05D0, 0x05D0, 0x05D0, 0x05D0, 0x05D5, 0x05D5]"
    and n2: "normalize_hebrew hebrew_block_mn
      (Some [0x05D0, 0x05D0, 0x05D0, 0x05D0, 0x05D0, 0x05D0, 0x05D0, 0x05D0, 0x05D0, 0x05D5])
      = [0x05D0, 0x05D0, 0x05D0, 0x05D0, 0x05D0, 0x05D0, 0x05D0, 0x05D0, 0x05D0, 0x05D5]"
    by (simp_all add: normalize_eval)
  have d: "levenshtein_distance
      [0x05D0, 0x05D0, 0x05D0, 0x05D0, 0x05D0, 0x05D0, 0x05D0, 0x05D0, 0x05D0, 0x05D5, 0x05D5]
      [0x05D0, 0x05D0, 0x05D0, 0x05D0, 0x05D0, 0x05D0, 0x05D0, 0x05D0, 0x05D0, 0x05D5] = Some 1"
    by (simp add: levenshtein_eval)
  have r: "remove_matres_lectionis
      [0x05D0, 0x05D0, 0x05D0, 0x05D0, 0x05D0, 0x05D0, 0x05D0, 0x05D0, 0x05D0, 0x05D5, 0x05D5]
    = remove_matres_lectionis
      [0x05D0, 0x05D0, 0x05D0, 0x05D0, 0x05D0, 0x05D0, 0x05D0, 0x05D0, 0x05D0, 0x05D5]"
    by (simp add: remove_matres_lectionis_def)
  show "compare_hebrew_default hebrew_block_mn
      (Some [0x05D0, 0x05D0, 0x05D0, 0x05D0, 0x05D0, 0x05D0, 0x05D0, 0x05D0, 0x05D0, 0x05D5, 0x05D5])
      (Some [0x05D0, 0x05D0, 0x05D0, 0x05D0, 0x05D0, 0x05D0, 0x05D0, 0x05D0, 0x05D0, 0x05D5]) True
       = Some ((1 - 1 / 11) * 0.7)"
    using compare_hebrew_fuzzy_formula [of
        "Some [0x05D0, 0x05D0, 0x05D0, 0x05D0, 0x05D0, 0x05D0, 0x05D0, 0x05D0, 0x05D0, 0x05D5, 0x05D5]"
        "Some [0x05D0, 0x05D0, 0x05D0, 0x05D0, 0x05D0, 0x05D0, 0x05D0, 0x05D0, 0x05D0, 0x05D5]"
        hebrew_block_mn]
    unfolding n1 n2 d r by (simp add: py_not_def)
qed

text \<open>
  Claim C10. Two different non-empty strings without any Hebrew consonant both normalise to
  the empty string, so the consonantal tier answers exactly \<open>0.9\<close>, whatever the flag; and
  on every path that reaches the guard \<open>max_len == 0\<close> of the fuzzy tier (non-empty, different
  inputs, different normalised forms, \<open>fuzzy\<close> set) the maximal length is not 0, so the guard
  never fires.
\<close>

theorem compare_hebrew_no_consonants:
  "(\<not> py_not text1 \<and> \<not> py_not text2 \<and> text1 \<noteq> text2
      \<and> \<not> is_hebrew_text text1 \<and> \<not> is_hebrew_text text2
      \<longrightarrow> compare_hebrew_default mn text1 text2 fuzzy = Some 0.9)
   \<and> (\<not> py_not text1 \<and> \<not> py_not text2 \<and> text1 \<noteq> text2
      \<and> normalize_hebrew mn text1 \<noteq> normalize_hebrew mn text2 \<and> fuzzy
      \<longrightarrow> max (length (normalize_hebrew mn text1)) (length (normalize_hebrew mn text2)) \<noteq> 0)"
proof (intro conjI impI)
  assume a: "\<not> py_not text1 \<and> \<not> py_not text2 \<and> text1 \<noteq> text2
      \<and> \<not> is_hebrew_text text1 \<and> \<not> is_hebrew_text text2"
  then have "normalize_hebrew mn text1 = []" "normalize_hebrew mn text2 = []"
    by (simp_all add: is_hebrew_text_iff normalize_hebrew_survivors_str_of filter_empty_conv)
  then have "normalize_hebrew mn text1 = normalize_hebrew mn text2" by simp
  with a show "compare_hebrew_default mn text1 text2 fuzzy = Some 0.9"
    unfolding compare_hebrew_default_def by (simp add: compare_hebrew_consonantal)
next
  assume "\<not> py_not text1 \<and> \<not> py_not text2 \<and> text1 \<noteq> text2
      \<and> normalize_hebrew mn text1 \<noteq> normalize_hebrew mn text2 \<and> fuzzy"
  then show "max (length (normalize_hebrew mn text1)) (length (normalize_hebrew mn text2)) \<noteq> 0"
    using normalize_differ_nonempty by blast
qed

theorem compare_hebrew_no_consonants_witness:
  "compare_hebrew_default hebrew_block_mn
      (Some [0x68, 0x65, 0x6C, 0x6C, 0x6F]) (Some [0x77, 0x6F, 0x72, 0x6C, 0x64]) True = Some 0.9
   \<and> compare_hebrew_default hebrew_block_mn
      (Some [0x68, 0x65, 0x6C, 0x6C, 0x6F]) (Some [0x77, 0x6F, 0x72, 0x6C, 0x64]) False = Some 0.9
   \<and> max (length (normalize_hebrew hebrew_block_mn (Some [0x05D0, 0x05D1])))
          (length (normalize_hebrew hebrew_block_mn (Some [0x05D2, 0x05D3]))) \<noteq> 0"
proof (intro conjI)
  have h: "\<not> py_not (Some [0x68, 0x65, 0x6C, 0x6C, 0x6F]) \<and> \<not> py_not (Some [0x77, 0x6F, 0x72, 0x6C, 0x64])
      \<and> (Some [0x68, 0x65, 0x6C, 0x6C, 0x6F] :: text_arg) \<noteq> Some [0x77, 0x6F, 0x72, 0x6C, 0x64]
      \<and> \<not> is_hebrew_text (Some [0x68, 0x65, 0x6C, 0x6C, 0x6F])
      \<and> \<not> is_hebrew_text (Some [0x77, 0x6F, 0x72, 0x6C, 0x64])"
    by (simp add: py_not_def is_hebrew_text_def is_consonant_def)
  show "compare_hebrew_default hebrew_block_mn
      (Some [0x68, 0x65, 0x6C, 0x6C, 0x6F]) (Some [0x77, 0x6F, 0x72, 0x6C, 0x64]) True = Some 0.9"
    by (rule compare_hebrew_no_consonants [THEN conjunct1, THEN mp, OF h])
  show "compare_hebrew_default hebrew_block_mn
      (Some [0x68, 0x65, 0x6C, 0x6C, 0x6F]) (Some [0x77, 0x6F, 0x72, 0x6C, 0x64]) False = Some 0.9"
    by (rule compare_hebrew_no_consonants [THEN conjunct1, THEN mp, OF h])
  have p: "\<not> py_not (Some [0x05D0, 0x05D1]) \<and> \<not> py_not (Some [0x05D2, 0x05D3])
      \<and> (Some [0x05D0, 0x05D1] :: text_arg) \<noteq> Some [0x05D2, 0x05D3]
      \<and> normalize_hebrew hebrew_block_mn (Some [0x05D0, 0x05D1])
          \<noteq> normalize_hebrew hebrew_block_mn (Some [0x05D2, 0x05D3]) \<and> True"
    by (simp add: py_not_def normalize_eval)
  show "max (length (normalize_hebrew hebrew_block_mn (Some [0x05D0, 0x05D1])))
          (length (normalize_hebrew hebrew_block_mn (Some [0x05D2, 0x05D3]))) \<noteq> 0"
    by (rule compare_hebrew_no_consonants [THEN conjunct2, THEN mp, OF p])
qed

section \<open>remove\_matres\_lectionis on runs\<close>

lemma unruns_simps [simp]:
  "unruns [] = []" "unruns ((c, n) # rs) = replicate n c @ unruns rs"
  by (simp_all add: unruns_def)

lemma unruns_runs: "unruns (runs xs) = xs"
  by (induction xs) (auto split: list.splits)

lemma maximal_runs_runs: "maximal_runs (runs xs)"
proof (induction xs)
  case Nil
  show ?case by simp
next
  case (Cons x xs)
  show ?case
  proof (cases "runs xs")
    case Nil
    then show ?thesis by simp
  next
    case C: (Cons p rest)
    obtain y n where p: "p = (y, n)" by (cases p)
    show ?thesis
      using Cons by (cases rest) (auto simp: C p)
  qed
qed

lemma re_sub_pair_other: "d \<noteq> c \<Longrightarrow> re_sub_pair c (d # xs) = d # re_sub_pair c xs"
  by (cases xs) simp_all

lemma re_sub_pair_replicate_other:
  "d \<noteq> c \<Longrightarrow> re_sub_pair c (replicate n d @ xs) = replicate n d @ re_sub_pair c xs"
  by (induction n) (simp_all add: re_sub_pair_other)

lemma re_sub_pair_last_of_run:
  "xs = [] \<or> hd xs \<noteq> c \<Longrightarrow> re_sub_pair c (c # xs) = c # re_sub_pair c xs"
  by (cases xs) auto

lemma re_sub_pair_replicate_same:
  assumes "xs = [] \<or> hd xs \<noteq> c"
  shows "re_sub_pair c (replicate n c @ xs) = replicate ((n + 1) div 2) c @ re_sub_pair c xs"
proof (induction n rule: less_induct)
  case (less n)
  consider "n = 0" | "n = 1" | m where "n = Suc (Suc m)"
    by (cases n rule: nat.exhaust) (auto, metis nat.exhaust)
  then show ?case
  proof cases
    case 1
    then show ?thesis by simp
  next
    case 2
    then show ?thesis using assms by (simp add: re_sub_pair_last_of_run)
  next
    case 3
    then show ?thesis using less [of m] by simp
  qed
qed

lemma halve_same: "halve c (c, n) = (c, (n + 1) div 2)"
  and halve_other: "d \<noteq> c \<Longrightarrow> halve c (d, n) = (d, n)"
  by (simp_all add: halve_def)

lemma maximal_runs_pos: "maximal_runs ((d, n) # rs) \<Longrightarrow> 0 < n"
  by (cases rs) auto

lemma hd_run: "0 < n \<Longrightarrow> hd (replicate n c @ xs) = c"
  by (cases n) simp_all

lemma unruns_not_start:
  assumes "maximal_runs ((d, n) # rs)"
  shows "unruns rs = [] \<or> hd (unruns rs) \<noteq> d"
proof (cases rs)
  case Nil
  then show ?thesis by simp
next
  case (Cons r rest)
  obtain a b where r: "r = (a, b)" by (cases r)
  from assms have "a \<noteq> d" "0 < b"
    unfolding Cons r using maximal_runs_pos [of a b rest] by auto
  then show ?thesis unfolding Cons r by (simp add: hd_run)
qed

lemma maximal_runs_tl: "maximal_runs (r # rs) \<Longrightarrow> maximal_runs rs"
  by (cases r; cases rs) auto

lemma re_sub_pair_unruns:
  "maximal_runs rs \<Longrightarrow> re_sub_pair c (unruns rs) = unruns (map (halve c) rs)"
proof (induction rs)
  case Nil
  show ?case by simp
next
  case (Cons r rs)
  obtain d n where r: "r = (d, n)" by (cases r)
  have ih: "re_sub_pair c (unruns rs) = unruns (map (halve c) rs)"
    using Cons maximal_runs_tl by blast
  show ?case
  proof (cases "d = c")
    case True
    have "unruns rs = [] \<or> hd (unruns rs) \<noteq> c"
      using Cons.prems unfolding r True by (rule unruns_not_start)
    then show ?thesis
      unfolding r True by (simp add: re_sub_pair_replicate_same ih halve_same)
  next
    case False
    then show ?thesis
      unfolding r by (simp add: re_sub_pair_replicate_other ih halve_other)
  qed
qed

lemma maximal_runs_halve: "maximal_runs rs \<Longrightarrow> maximal_runs (map (halve c) rs)"
  by (induction rs rule: maximal_runs.induct) (auto simp: halve_def)

lemma halve_twice:
  "halve 0x05D9 (halve 0x05D5 r)
     = (case r of (c, n) \<Rightarrow> if c = 0x05D5 \<or> c = 0x05D9 then (c, (n + 1) div 2) else (c, n))"
  by (cases r) (auto simp: halve_def)

text \<open>
  Claim C9, as amended. \<open>remove_matres_lectionis\<close> replaces every maximal run of \<open>n\<close> vavs
  (U+05D5) or \<open>n\<close> yods (U+05D9) by a run of \<open>(n + 1) div 2\<close> of the same letter, so a run
  of two becomes one letter and a single letter stays, and it leaves every other letter
  unchanged. (\<open>runs\<close> gives the maximal runs of the string and \<open>unruns\<close> writes them out.)
\<close>

theorem remove_matres_lectionis_halves_runs:
  "maximal_runs (runs text) \<and> unruns (runs text) = text
   \<and> remove_matres_lectionis text = halve_runs text"
proof -
  have "remove_matres_lectionis text
      = re_sub_pair 0x05D9 (re_sub_pair 0x05D5 (unruns (runs text)))"
    by (simp add: remove_matres_lectionis_def unruns_runs)
  also have "\<dots> = unruns (map (halve 0x05D9) (map (halve 0x05D5) (runs text)))"
    by (simp add: re_sub_pair_unruns maximal_runs_runs maximal_runs_halve)
  also have "\<dots> = halve_runs text"
    unfolding halve_runs_def map_map comp_def halve_twice ..
  finally show ?thesis by (simp add: maximal_runs_runs unruns_runs)
qed

text \<open>
  The claim as stated fails on a run of three vavs: it is one maximal run of length 3, which
  the claim leaves unchanged, and the function returns two vavs.
\<close>

theorem remove_matres_lectionis_triple_counterexample:
  "remove_matres_lectionis [0x05D5, 0x05D5, 0x05D5] = [0x05D5, 0x05D5]
   \<and> runs [0x05D5, 0x05D5, 0x05D5 :: codepoint] = [(0x05D5, 3)]
   \<and> collapse_exact_pairs [0x05D5, 0x05D5, 0x05D5] = [0x05D5, 0x05D5, 0x05D5]
   \<and> remove_matres_lectionis [0x05D5, 0x05D5, 0x05D5] \<noteq> collapse_exact_pairs [0x05D5, 0x05D5, 0x05D5]"
  by (simp add: remove_matres_lectionis_def collapse_exact_pairs_def)

section \<open>The coverage pass at a lexeme that shares no letter with the dictionary\<close>

lemma disjoint_pair_score:
  "compare_hebrew_default hebrew_block_mn (Some [0x05D0, 0x05D1]) (Some [0x05D2, 0x05D3]) True = Some 0"
proof -
  have n: "normalize_hebrew hebrew_block_mn (Some [0x05D0, 0x05D1]) = [0x05D0, 0x05D1]"
    "normalize_hebrew hebrew_block_mn (Some [0x05D2, 0x05D3]) = [0x05D2, 0x05D3]"
    by (simp_all add: normalize_eval)
  have d: "edit_distance [0x05D0, 0x05D1 :: codepoint] [0x05D2, 0x05D3] = 2"
    by simp
  have p: "\<not> py_not (Some [0x05D0, 0x05D1])" "\<not> py_not (Some [0x05D2, 0x05D3])"
    "(Some [0x05D0, 0x05D1] :: text_arg) \<noteq> Some [0x05D2, 0x05D3]"
    "normalize_hebrew hebrew_block_mn (Some [0x05D0, 0x05D1])
       \<noteq> normalize_hebrew hebrew_block_mn (Some [0x05D2, 0x05D3])"
    unfolding n by (simp_all add: py_not_def)
  show ?thesis
    unfolding compare_hebrew_default_def compare_hebrew_fuzzy_path [OF p] n d
    by (simp add: remove_matres_lectionis_def)
qed

text \<open>
  Claim C8 says that the pass gives every still unmatched lexeme an entry. It does not when
  every score of the lexeme is \<open>0.0\<close>: \<open>best_score\<close> starts at 0 and the test is
  \<open>score > best_score\<close>, so \<open>best_match\<close> stays \<open>None\<close>. Here the corpus has the one lexeme
  alef-bet, the dictionary the one entry gimel-dalet; the pass returns the mapping as it
  was, empty.
\<close>

theorem coverage_pass_leaves_form_unmatched:
  "normalize_hebrew hebrew_block_mn (Some [0x05D0, 0x05D1]) = [0x05D0, 0x05D1]
   \<and> coverage_pass hebrew_block_mn
        [([0x05D0, 0x05D1], \<lparr>b_voc = [0x05D0, 0x05D1], b_cons = [0x05D0, 0x05D1],
                              b_normalized = [0x05D0, 0x05D1]\<rparr>)]
        [(''H1410'', \<lparr>s_lemma = [0x05D2, 0x05D3], s_normalized = [0x05D2, 0x05D3],
                      s_glosses = ''Gad''\<rparr>)]
        Map.empty
      = Some (Map.empty, 0)"
  by (simp add: coverage_pass_def cover_step_def best_step_def disjoint_pair_score normalize_eval)

end
